theory Spec2Isabelle
  imports Complex_Main
begin

section \<open>Conventions of the embedding\<close>

text \<open>
  The robot's Python code computes with floats and unbounded integers. Floats are modelled
  as \<^typ>\<open>real\<close> (exact arithmetic: no rounding, no NaN, no infinities), Python integers
  as \<^typ>\<open>int\<close>. Every reading of \<^verbatim>\<open>time.monotonic()\<close> is an explicit argument of the
  function that makes it. Mutation of an object is state passing: a method takes the object
  and returns the updated one. Logging is omitted.
\<close>

datatype py_exception = KeyError | ValueError

section \<open>core/pid\_controller.py\<close>

record pid =
  kp :: real
  ki :: real
  kd :: real
  dead_zone :: real
  max_integral :: real
  integral :: real
  last_error :: real
  last_time :: "real option"

text \<open>\<^verbatim>\<open>PIDController.__init__\<close>\<close>

definition PIDController :: "real \<Rightarrow> real \<Rightarrow> real \<Rightarrow> real \<Rightarrow> real \<Rightarrow> pid" where
  "PIDController p i d dz mi =
     \<lparr>kp = p, ki = i, kd = d, dead_zone = dz, max_integral = mi,
      integral = 0, last_error = 0, last_time = None\<rparr>"

text \<open>\<^verbatim>\<open>PIDController.update_params\<close>: an argument left at \<^verbatim>\<open>None\<close> keeps the field.\<close>

definition update_params ::
  "pid \<Rightarrow> real option \<Rightarrow> real option \<Rightarrow> real option \<Rightarrow> real option \<Rightarrow> real option \<Rightarrow> pid" where
  "update_params s p i d dz mi =
     s\<lparr>kp := (case p of None \<Rightarrow> kp s | Some v \<Rightarrow> v),
       ki := (case i of None \<Rightarrow> ki s | Some v \<Rightarrow> v),
       kd := (case d of None \<Rightarrow> kd s | Some v \<Rightarrow> v),
       dead_zone := (case dz of None \<Rightarrow> dead_zone s | Some v \<Rightarrow> v),
       max_integral := (case mi of None \<Rightarrow> max_integral s | Some v \<Rightarrow> v)\<rparr>"

text \<open>\<^verbatim>\<open>PIDController.reset\<close>\<close>

definition reset :: "pid \<Rightarrow> pid" where
  "reset s = s\<lparr>integral := 0, last_error := 0, last_time := None\<rparr>"

text \<open>
  The time step of \<^verbatim>\<open>PIDController.compute\<close> (its first six lines): \<^verbatim>\<open>0.033\<close> when
  no call has been timed since construction or \<^verbatim>\<open>reset\<close>, otherwise the clock
  difference, at least \<^verbatim>\<open>0.001\<close>.
\<close>

definition compute_dt :: "pid \<Rightarrow> real \<Rightarrow> real" where
  "compute_dt s now =
     (case last_time s of
        None \<Rightarrow> 33 / 1000
      | Some t \<Rightarrow> max (now - t) (1 / 1000))"

text \<open>
  \<^verbatim>\<open>PIDController.compute\<close>, with the clock reading \<open>now\<close>; returns the output and
  the updated controller.
\<close>

definition compute :: "pid \<Rightarrow> real \<Rightarrow> real \<Rightarrow> real \<times> pid" where
  "compute s now err =
     (let dt = compute_dt s now;
          e = (if \<bar>err\<bar> < dead_zone s then 0 else err);
          p = kp s * e;
          integral1 = integral s + e * dt;
          integral2 = max (- max_integral s) (min (max_integral s) integral1);
          i = ki s * integral2;
          derivative = (e - last_error s) / dt;
          d = kd s * derivative;
          output = p + i + d;
          output = max (- 100) (min 100 output)
      in (output, s\<lparr>last_time := Some now, integral := integral2, last_error := e\<rparr>))"

text \<open>
  A caller making one \<^verbatim>\<open>compute\<close> call after another: each element of the argument is
  the clock reading and the error of one call; the result lists, call by call, the output
  and the controller after the call.
\<close>

fun compute_calls :: "pid \<Rightarrow> (real \<times> real) list \<Rightarrow> (real \<times> pid) list" where
  "compute_calls s [] = []"
| "compute_calls s ((now, err) # cs) =
     (let r = compute s now err in r # compute_calls (snd r) cs)"

section \<open>core/line\_detector.py\<close>

text \<open>
  The image pipeline of \<^verbatim>\<open>LineDetector._process\<close> (cropping, grayscale, blur, threshold,
  margins, \<^verbatim>\<open>cv2.findContours\<close>) is OpenCV's: the model starts from the list of contours it
  returns. Of a contour the detector reads its \<^verbatim>\<open>cv2.contourArea\<close> and the moments
  \<^verbatim>\<open>m00\<close>, \<^verbatim>\<open>m10\<close>, \<^verbatim>\<open>m01\<close> of \<^verbatim>\<open>cv2.moments\<close>. The debug frame, which
  does not enter the published observation, is left out, and with it \<^verbatim>\<open>cy_line\<close>.
\<close>

record contour =
  area :: real
  m00 :: real
  m10 :: real
  m01 :: real

record detector =
  width :: int
  rotation :: int
  continuity_power :: real
  max_memory :: int
  ra_threshold :: real
  ra_enabled :: bool
  cx :: int
  d_error :: real
  line_lost :: bool
  right_angle :: bool
  prev_centers :: "int list"

text \<open>\<^verbatim>\<open>LineDetector.__init__\<close>, from the configuration values it reads.\<close>

definition LineDetector :: "int \<Rightarrow> int \<Rightarrow> real \<Rightarrow> int \<Rightarrow> real \<Rightarrow> bool \<Rightarrow> detector" where
  "LineDetector w rot pw mem thr en =
     \<lparr>width = w, rotation = rot, continuity_power = pw, max_memory = mem,
      ra_threshold = thr, ra_enabled = en, cx = w div 2,
      d_error = 0, line_lost = True, right_angle = False, prev_centers = []\<rparr>"

text \<open>Python's \<^verbatim>\<open>int(x)\<close> on a float: truncation towards zero.\<close>

definition py_int :: "real \<Rightarrow> int" where
  "py_int x = (if 0 \<le> x then \<lfloor>x\<rfloor> else \<lceil>x\<rceil>)"

text \<open>The centroid column \<^verbatim>\<open>int(M["m10"] / M["m00"])\<close>.\<close>

definition centroid_x :: "contour \<Rightarrow> int" where
  "centroid_x c = py_int (m10 c / m00 c)"

text \<open>
  \<^verbatim>\<open>max(contours, key=cv2.contourArea)\<close>: the first contour of largest area; Python raises
  \<^verbatim>\<open>ValueError\<close> on an empty list.
\<close>

fun max_area :: "contour \<Rightarrow> contour list \<Rightarrow> contour" where
  "max_area b [] = b"
| "max_area b (c # cs) = max_area (if area b < area c then c else b) cs"

definition py_max_area :: "contour list \<Rightarrow> py_exception + contour" where
  "py_max_area cs = (case cs of [] \<Rightarrow> Inl ValueError | c # cs' \<Rightarrow> Inr (max_area c cs'))"

text \<open>The score of a candidate in \<^verbatim>\<open>_best_contour\<close>.\<close>

definition score :: "int \<Rightarrow> real \<Rightarrow> contour \<Rightarrow> real" where
  "score last_cx pw c =
     (let dist = \<bar>centroid_x c - last_cx\<bar> + 1
      in area c / (real_of_int dist powr pw))"

text \<open>The \<^verbatim>\<open>for\<close> loop of \<^verbatim>\<open>_best_contour\<close>, on the pair \<^verbatim>\<open>(best, best_score)\<close>.\<close>

fun best_loop ::
  "int \<Rightarrow> real \<Rightarrow> contour list \<Rightarrow> contour option \<times> real \<Rightarrow> contour option \<times> real" where
  "best_loop last_cx pw [] acc = acc"
| "best_loop last_cx pw (c # cs) (best, best_score) =
     (if area c < 100 then best_loop last_cx pw cs (best, best_score)
      else if m00 c = 0 then best_loop last_cx pw cs (best, best_score)
      else if best_score < score last_cx pw c
           then best_loop last_cx pw cs (Some c, score last_cx pw c)
           else best_loop last_cx pw cs (best, best_score))"

text \<open>\<^verbatim>\<open>LineDetector._best_contour\<close>\<close>

definition best_contour :: "detector \<Rightarrow> contour list \<Rightarrow> py_exception + contour" where
  "best_contour s contours =
     (if prev_centers s = [] then py_max_area contours
      else case fst (best_loop (last (prev_centers s)) (continuity_power s) contours (None, - 1)) of
             Some b \<Rightarrow> Inr b
           | None \<Rightarrow> py_max_area contours)"

text \<open>
  The body of \<^verbatim>\<open>if M["m00"] > 0:\<close> in \<^verbatim>\<open>_process\<close>, followed by the publication
  under the lock: the error, the history with its bound, the right-angle test.
\<close>

definition found_update :: "detector \<Rightarrow> contour \<Rightarrow> detector" where
  "found_update s best =
     (let cx_line = centroid_x best;
          raw_error = real_of_int (cx_line - cx s);
          err = (if rotation s = 180 then - raw_error else raw_error);
          pc = prev_centers s @ [cx_line];
          pc = (if max_memory s < int (length pc) then tl pc else pc);
          recent = map (\<lambda>c. real_of_int \<bar>c - cx s\<bar>) (drop (length pc - 3) pc);
          ra = (ra_enabled s \<and> 3 \<le> length pc \<and> list_all (\<lambda>e. ra_threshold s < e) recent)
      in s\<lparr>prev_centers := pc, d_error := err, line_lost := False, right_angle := ra\<rparr>)"

text \<open>
  The path of \<^verbatim>\<open>_process\<close> on which \<^verbatim>\<open>line_lost\<close> stays \<^verbatim>\<open>True\<close>: the history is
  cleared and the initial values of the locals are published.
\<close>

definition lost_update :: "detector \<Rightarrow> detector" where
  "lost_update s = s\<lparr>prev_centers := [], d_error := 0, line_lost := True, right_angle := False\<rparr>"

text \<open>
  \<^verbatim>\<open>LineDetector._process\<close>, from the contours of the frame. An exception leaves the
  detector as it was (it is raised before any assignment).
\<close>

definition process :: "detector \<Rightarrow> contour list \<Rightarrow> py_exception + detector" where
  "process s contours =
     (let valid = filter (\<lambda>c. 50 < area c) contours
      in if contours \<noteq> [] \<and> valid \<noteq> [] then
           (case best_contour s valid of
              Inl e \<Rightarrow> Inl e
            | Inr best \<Rightarrow>
                Inr (if 0 < m00 best then found_update s best else lost_update s))
         else Inr (lost_update s))"

text \<open>
  \<^verbatim>\<open>LineDetector._loop\<close> over the frames captured while \<^verbatim>\<open>_running\<close> holds: a frame
  whose processing raises is logged and skipped.
\<close>

fun loop_frames :: "detector \<Rightarrow> contour list list \<Rightarrow> detector" where
  "loop_frames s [] = s"
| "loop_frames s (f # fs) =
     (case process s f of Inl e \<Rightarrow> loop_frames s fs | Inr s' \<Rightarrow> loop_frames s' fs)"

text \<open>The getters of the public interface.\<close>

definition get_error :: "detector \<Rightarrow> real" where
  "get_error s = d_error s"

definition is_line_lost :: "detector \<Rightarrow> bool" where
  "is_line_lost s = line_lost s"

definition is_right_angle :: "detector \<Rightarrow> bool" where
  "is_right_angle s = right_angle s"

text \<open>
  The invariant of the loop of \<^verbatim>\<open>_best_contour\<close> after the contours \<open>seen\<close>: either no
  candidate has passed the two filters and the pair is still \<^verbatim>\<open>(None, -1)\<close>, or the pair
  holds a candidate of largest score among those that passed.
\<close>

definition passes :: "contour \<Rightarrow> bool" where
  "passes c = (100 \<le> area c \<and> m00 c \<noteq> 0)"

definition best_inv :: "int \<Rightarrow> real \<Rightarrow> contour list \<Rightarrow> contour option \<times> real \<Rightarrow> bool" where
  "best_inv l p seen acc =
     (case fst acc of
        None \<Rightarrow> snd acc = - 1 \<and> list_all (\<lambda>c. \<not> passes c) seen
      | Some b \<Rightarrow> b \<in> set seen \<and> passes b \<and> snd acc = score l p b \<and>
                  list_all (\<lambda>c. passes c \<longrightarrow> score l p c \<le> score l p b) seen)"

text \<open>
  A frame on which the line is seen far off centre: the observation published for it is not
  lost and its error exceeds the right-angle threshold in absolute value.
\<close>

definition far_off_center :: "detector \<Rightarrow> bool" where
  "far_off_center s = (\<not> is_line_lost s \<and> ra_threshold s < \<bar>get_error s\<bar>)"

text \<open>
  Example input: a region of area \<open>a\<close> whose centroid lies in column \<open>x\<close> (for a contour
  OpenCV's \<^verbatim>\<open>m00\<close> is its area).
\<close>

definition blob :: "real \<Rightarrow> int \<Rightarrow> contour" where
  "blob a x = \<lparr>area = a, m00 = a, m10 = a * real_of_int x, m01 = 0\<rparr>"

section \<open>Engines.py\<close>

text \<open>
  The hardware the robot acts on: for each channel of the two motor drivers the levels of
  its two direction pins and the duty cycle of its PWM, and the durations passed to
  \<^verbatim>\<open>time.sleep\<close> so far. A method that can raise returns \<open>Inl\<close> with the exception
  and the hardware as it is at that point, or \<open>Inr\<close> with the hardware after the call.
\<close>

datatype channel = Driver1_a | Driver1_b | Driver2_a | Driver2_b

record pins =
  in1 :: bool
  in2 :: bool
  duty :: real

record hw =
  gpio :: "channel \<Rightarrow> pins"
  slept :: "real list"

text \<open>One statement after another, the second skipped when the first raises.\<close>

definition and_then :: "('e \<times> 's) + 's \<Rightarrow> ('s \<Rightarrow> ('e \<times> 's) + 's) \<Rightarrow> ('e \<times> 's) + 's" where
  "and_then r f = (case r of Inl x \<Rightarrow> Inl x | Inr s \<Rightarrow> f s)"

text \<open>\<^verbatim>\<open>time.sleep\<close>: Python raises \<^verbatim>\<open>ValueError\<close> on a negative duration.\<close>

definition py_sleep :: "real \<Rightarrow> hw \<Rightarrow> (py_exception \<times> hw) + hw" where
  "py_sleep d h = (if d < 0 then Inl (ValueError, h) else Inr (h\<lparr>slept := slept h @ [d]\<rparr>))"

text \<open>
  The fields of \<^verbatim>\<open>Engines\<close> the control loop uses: the dictionary \<^verbatim>\<open>_wheel\<close> from a
  wheel position to its channel and inversion, and the speeds and times of
  \<^verbatim>\<open>_load_params\<close>.
\<close>

record engines =
  wheel :: "string \<rightharpoonup> channel \<times> real"
  base_speed :: real
  max_speed :: real
  min_speed :: real
  turn_speed :: real
  min_turn_speed :: real
  search_turn_speed :: real
  right_angle_turn_speed :: real
  right_angle_turn_time :: real
  search_time :: real

definition FRONT_LEFT :: string where "FRONT_LEFT = ''front_left''"
definition FRONT_RIGHT :: string where "FRONT_RIGHT = ''front_right''"
definition REAR_LEFT :: string where "REAR_LEFT = ''rear_left''"
definition REAR_RIGHT :: string where "REAR_RIGHT = ''rear_right''"

text \<open>
  The loop of \<^verbatim>\<open>Engines._setup_channels\<close> that fills \<^verbatim>\<open>_wheel\<close> from the sections
  \<^verbatim>\<open>motor_mapping\<close> and \<^verbatim>\<open>motor_inversion\<close> of the configuration, channel by channel
  in the order of the dictionary \<^verbatim>\<open>_channels\<close>.
\<close>

definition setup_channels ::
  "(channel \<Rightarrow> string) \<Rightarrow> (channel \<Rightarrow> real) \<Rightarrow> (string \<rightharpoonup> channel \<times> real)" where
  "setup_channels motor_mapping motor_inversion =
     fold (\<lambda>ch w. w(motor_mapping ch \<mapsto> (ch, motor_inversion ch)))
       [Driver1_a, Driver1_b, Driver2_a, Driver2_b] Map.empty"

text \<open>\<^verbatim>\<open>Engines._clamp\<close>\<close>

definition clamp :: "real \<Rightarrow> real \<Rightarrow> real \<Rightarrow> real" where
  "clamp v lo hi = max lo (min hi v)"

text \<open>The pin levels and the duty cycle \<^verbatim>\<open>_set_wheel\<close> writes for a clamped speed.\<close>

definition drive :: "real \<Rightarrow> pins" where
  "drive v =
     (if 0 < v then \<lparr>in1 = True, in2 = False, duty = \<bar>v\<bar>\<rparr>
      else if v < 0 then \<lparr>in1 = False, in2 = True, duty = \<bar>v\<bar>\<rparr>
      else \<lparr>in1 = False, in2 = False, duty = \<bar>v\<bar>\<rparr>)"

text \<open>\<^verbatim>\<open>Engines._set_wheel\<close>: the lookup \<^verbatim>\<open>self._wheel[position]\<close> raises \<^verbatim>\<open>KeyError\<close>.\<close>

definition set_wheel :: "engines \<Rightarrow> string \<Rightarrow> real \<Rightarrow> hw \<Rightarrow> (py_exception \<times> hw) + hw" where
  "set_wheel eng position v h =
     (case wheel eng position of
        None \<Rightarrow> Inl (KeyError, h)
      | Some (ch, inversion) \<Rightarrow>
          Inr (h\<lparr>gpio := (gpio h)(ch := drive (clamp (v * inversion) (- 100) 100))\<rparr>))"

text \<open>\<^verbatim>\<open>Engines.set_motors\<close>, \<^verbatim>\<open>set_speed\<close>, \<^verbatim>\<open>stop\<close>\<close>

definition set_motors ::
  "engines \<Rightarrow> real \<Rightarrow> real \<Rightarrow> real \<Rightarrow> real \<Rightarrow> hw \<Rightarrow> (py_exception \<times> hw) + hw" where
  "set_motors eng fl fr rl rr h =
     and_then (set_wheel eng FRONT_LEFT fl h) (\<lambda>h.
     and_then (set_wheel eng FRONT_RIGHT fr h) (\<lambda>h.
     and_then (set_wheel eng REAR_LEFT rl h) (\<lambda>h.
     set_wheel eng REAR_RIGHT rr h)))"

definition set_speed :: "engines \<Rightarrow> real \<Rightarrow> real \<Rightarrow> hw \<Rightarrow> (py_exception \<times> hw) + hw" where
  "set_speed eng left right h = set_motors eng left right left right h"

definition stop :: "engines \<Rightarrow> hw \<Rightarrow> (py_exception \<times> hw) + hw" where
  "stop eng h = set_motors eng 0 0 0 0 h"

text \<open>\<^verbatim>\<open>Engines.turn_left\<close>, \<^verbatim>\<open>turn_right\<close>: an argument left out is \<open>None\<close>.\<close>

definition turn_left ::
  "engines \<Rightarrow> real option \<Rightarrow> real option \<Rightarrow> hw \<Rightarrow> (py_exception \<times> hw) + hw" where
  "turn_left eng spd duration h =
     (let v = clamp (case spd of None \<Rightarrow> turn_speed eng | Some x \<Rightarrow> x) 0 100
      in and_then (set_motors eng (- v) v (- v) v h) (\<lambda>h.
           case duration of
             None \<Rightarrow> Inr h
           | Some d \<Rightarrow> and_then (py_sleep d h) (stop eng)))"

definition turn_right ::
  "engines \<Rightarrow> real option \<Rightarrow> real option \<Rightarrow> hw \<Rightarrow> (py_exception \<times> hw) + hw" where
  "turn_right eng spd duration h =
     (let v = clamp (case spd of None \<Rightarrow> turn_speed eng | Some x \<Rightarrow> x) 0 100
      in and_then (set_motors eng v (- v) v (- v) h) (\<lambda>h.
           case duration of
             None \<Rightarrow> Inr h
           | Some d \<Rightarrow> and_then (py_sleep d h) (stop eng)))"

text \<open>\<^verbatim>\<open>Engines.curve\<close>\<close>

definition curve :: "engines \<Rightarrow> real option \<Rightarrow> real \<Rightarrow> hw \<Rightarrow> (py_exception \<times> hw) + hw" where
  "curve eng spd steer h =
     (let v = (case spd of None \<Rightarrow> base_speed eng | Some x \<Rightarrow> x);
          v = clamp v (- 100) 100;
          st = clamp steer (- 100) 100;
          left_speed = clamp (v + st) (min_turn_speed eng) (max_speed eng);
          right_speed = clamp (v - st) (min_turn_speed eng) (max_speed eng)
      in set_speed eng left_speed right_speed h)"

text \<open>\<^verbatim>\<open>Engines.right_angle_left\<close>, \<^verbatim>\<open>right_angle_right\<close>\<close>

definition right_angle_left ::
  "engines \<Rightarrow> real option \<Rightarrow> real option \<Rightarrow> hw \<Rightarrow> (py_exception \<times> hw) + hw" where
  "right_angle_left eng spd duration h =
     turn_left eng
       (Some (case spd of None \<Rightarrow> right_angle_turn_speed eng | Some x \<Rightarrow> x))
       (Some (case duration of None \<Rightarrow> right_angle_turn_time eng | Some d \<Rightarrow> d)) h"

definition right_angle_right ::
  "engines \<Rightarrow> real option \<Rightarrow> real option \<Rightarrow> hw \<Rightarrow> (py_exception \<times> hw) + hw" where
  "right_angle_right eng spd duration h =
     turn_right eng
       (Some (case spd of None \<Rightarrow> right_angle_turn_speed eng | Some x \<Rightarrow> x))
       (Some (case duration of None \<Rightarrow> right_angle_turn_time eng | Some d \<Rightarrow> d)) h"

section \<open>core/robot\_controller.py\<close>

datatype mode = Idle | Following | Searching | RightAngle | Stopped

record robot_state =
  mode :: mode
  st_error :: real
  steering :: real
  speed :: real
  running :: bool

text \<open>\<^verbatim>\<open>RobotState.__init__\<close>\<close>

definition RobotState :: robot_state where
  "RobotState = \<lparr>mode = Idle, st_error = 0, steering = 0, speed = 0, running = False\<rparr>"

text \<open>
  The controller with its PID controller, its engines, its published state and the
  hardware. The detector runs in its own thread: what an iteration of the control loop
  reads from it, and from the clock, is an input of the iteration.
\<close>

record controller =
  c_pid :: pid
  c_engines :: engines
  c_state :: robot_state
  c_search_time :: real
  c_search_dir :: int
  c_search_start :: "real option"
  c_ra_enabled :: bool
  c_hw :: hw

text \<open>\<^verbatim>\<open>RobotController.__init__\<close>, from the objects it builds.\<close>

definition RobotController :: "pid \<Rightarrow> engines \<Rightarrow> bool \<Rightarrow> hw \<Rightarrow> controller" where
  "RobotController p eng ra h =
     \<lparr>c_pid = p, c_engines = eng, c_state = RobotState, c_search_time = search_time eng,
      c_search_dir = 1, c_search_start = None, c_ra_enabled = ra, c_hw = h\<rparr>"

text \<open>
  What one iteration of \<^verbatim>\<open>RobotController._loop\<close> reads: the values returned by
  \<^verbatim>\<open>is_right_angle()\<close>, \<^verbatim>\<open>is_line_lost()\<close> and \<^verbatim>\<open>get_error()\<close> (three separate
  calls, so no relation between them is assumed) and two readings of the monotonic clock
  (\<^verbatim>\<open>_handle_search\<close> reads it twice on entry, \<^verbatim>\<open>PIDController.compute\<close> once).
\<close>

record inputs =
  in_right_angle :: bool
  in_line_lost :: bool
  in_error :: real
  in_time1 :: real
  in_time2 :: real

text \<open>A call of an \<^verbatim>\<open>Engines\<close> method or of \<^verbatim>\<open>time.sleep\<close> from the controller.\<close>

definition on_hw ::
  "controller \<Rightarrow> (hw \<Rightarrow> (py_exception \<times> hw) + hw) \<Rightarrow> (py_exception \<times> controller) + controller" where
  "on_hw c f =
     (case f (c_hw c) of
        Inl (e, h) \<Rightarrow> Inl (e, c\<lparr>c_hw := h\<rparr>)
      | Inr h \<Rightarrow> Inr (c\<lparr>c_hw := h\<rparr>))"

text \<open>\<^verbatim>\<open>RobotController._adaptive_speed\<close>\<close>

definition adaptive_speed :: "engines \<Rightarrow> real \<Rightarrow> real" where
  "adaptive_speed eng abs_steering =
     (let factor = min (abs_steering / 100) 1;
          v = max_speed eng - factor * (max_speed eng - min_speed eng)
      in max (min_speed eng) (min (max_speed eng) v))"

text \<open>
  \<^verbatim>\<open>RobotController._handle_follow\<close>: the statements before the call of
  \<^verbatim>\<open>curve\<close> (timer cleared, PID reset unless the mode is "following", PID step), and the
  statements after it (last side remembered, state published).
\<close>

definition follow_prepare :: "controller \<Rightarrow> real \<Rightarrow> real \<Rightarrow> controller \<times> real" where
  "follow_prepare c err now =
     (let c1 = c\<lparr>c_search_start := None\<rparr>;
          c2 = (if mode (c_state c1) \<noteq> Following then c1\<lparr>c_pid := reset (c_pid c1)\<rparr> else c1);
          r = compute (c_pid c2) now err
      in (c2\<lparr>c_pid := snd r\<rparr>, fst r))"

definition follow_publish :: "controller \<Rightarrow> real \<Rightarrow> real \<Rightarrow> real \<Rightarrow> controller" where
  "follow_publish c err steer v =
     (let c1 = (if err \<noteq> 0 then c\<lparr>c_search_dir := (if 0 < err then 1 else - 1)\<rparr> else c)
      in c1\<lparr>c_state := (c_state c1)\<lparr>mode := Following, st_error := err,
                                       steering := steer, speed := v\<rparr>\<rparr>)"

definition handle_follow ::
  "controller \<Rightarrow> real \<Rightarrow> real \<Rightarrow> (py_exception \<times> controller) + controller" where
  "handle_follow c err now =
     (let (c1, steer) = follow_prepare c err now;
          v = adaptive_speed (c_engines c1) \<bar>steer\<bar>
      in and_then (on_hw c1 (curve (c_engines c1) (Some v) steer))
           (\<lambda>c2. Inr (follow_publish c2 err steer v)))"

text \<open>
  \<^verbatim>\<open>RobotController._handle_search\<close>: the entry into the search (timer started, PID
  reset), then the branch on the elapsed time: stop, publish "stopped" and sleep half a
  second, or turn towards the last side and publish "searching".
\<close>

definition search_enter :: "controller \<Rightarrow> real \<Rightarrow> controller" where
  "search_enter c t =
     (if c_search_start c = None
      then c\<lparr>c_search_start := Some t, c_pid := reset (c_pid c)\<rparr> else c)"

definition search_stopped :: "controller \<Rightarrow> (py_exception \<times> controller) + controller" where
  "search_stopped c =
     and_then (on_hw c (stop (c_engines c)))
       (\<lambda>c1. on_hw (c1\<lparr>c_state := (c_state c1)\<lparr>mode := Stopped, speed := 0, steering := 0\<rparr>\<rparr>)
               (py_sleep (1 / 2)))"

definition search_turn :: "controller \<Rightarrow> real \<Rightarrow> (py_exception \<times> controller) + controller" where
  "search_turn c err =
     (let v = search_turn_speed (c_engines c)
      in and_then
           (on_hw c (if 0 < c_search_dir c then set_speed (c_engines c) v (- v)
                     else set_speed (c_engines c) (- v) v))
           (\<lambda>c1. Inr (c1\<lparr>c_state := (c_state c1)\<lparr>mode := Searching, st_error := err,
                          steering := real_of_int (c_search_dir c1) * v, speed := 0\<rparr>\<rparr>)))"

definition handle_search ::
  "controller \<Rightarrow> real \<Rightarrow> real \<Rightarrow> real \<Rightarrow> (py_exception \<times> controller) + controller" where
  "handle_search c err t1 t2 =
     (let c1 = search_enter c t1;
          elapsed = t2 - (case c_search_start c1 of None \<Rightarrow> t1 | Some t \<Rightarrow> t)
      in if c_search_time c1 < elapsed then search_stopped c1 else search_turn c1 err)"

text \<open>\<^verbatim>\<open>RobotController._handle_right_angle\<close>\<close>

definition handle_right_angle :: "controller \<Rightarrow> (py_exception \<times> controller) + controller" where
  "handle_right_angle c =
     and_then (on_hw c (stop (c_engines c))) (\<lambda>c1.
     and_then (on_hw c1 (py_sleep (1 / 10))) (\<lambda>c2.
     and_then
       (on_hw (c2\<lparr>c_state := (c_state c2)\<lparr>mode := RightAngle, steering := 0, speed := 0\<rparr>\<rparr>)
          (if 0 < c_search_dir c2 then right_angle_right (c_engines c2) None None
           else right_angle_left (c_engines c2) None None))
       (\<lambda>c3. Inr (c3\<lparr>c_pid := reset (c_pid c3)\<rparr>))))"

text \<open>
  The body of the \<^verbatim>\<open>try\<close> in \<^verbatim>\<open>RobotController._loop\<close>, then the iteration with its
  \<^verbatim>\<open>except Exception\<close> handler (stop the engines, sleep a tenth of a second). An
  exception raised inside the handler leaves \<^verbatim>\<open>_loop\<close>: the iteration returns \<open>Inl\<close>.
\<close>

definition iteration_body :: "controller \<Rightarrow> inputs \<Rightarrow> (py_exception \<times> controller) + controller" where
  "iteration_body c i =
     (if in_right_angle i \<and> c_ra_enabled c then handle_right_angle c
      else if in_line_lost i then handle_search c (in_error i) (in_time1 i) (in_time2 i)
      else handle_follow c (in_error i) (in_time1 i))"

definition loop_iteration :: "controller \<Rightarrow> inputs \<Rightarrow> (py_exception \<times> controller) + controller" where
  "loop_iteration c i =
     (case iteration_body c i of
        Inr c1 \<Rightarrow> Inr c1
      | Inl (e, c1) \<Rightarrow>
          and_then (on_hw c1 (stop (c_engines c1))) (\<lambda>c2. on_hw c2 (py_sleep (1 / 10))))"

text \<open>
  \<^verbatim>\<open>RobotController._loop\<close> over the iterations made while \<^verbatim>\<open>_running\<close> holds, one
  element of the list for each. \<open>Inl\<close>: the control thread has ended with an exception.
\<close>

fun control_loop :: "controller \<Rightarrow> inputs list \<Rightarrow> (py_exception \<times> controller) + controller" where
  "control_loop c [] = Inr c"
| "control_loop c (i # is) =
     (case loop_iteration c i of Inl x \<Rightarrow> Inl x | Inr c1 \<Rightarrow> control_loop c1 is)"

text \<open>
  All four wheel positions are in \<^verbatim>\<open>_wheel\<close>; the channel of a wheel is switched off
  (both direction pins low, duty cycle 0); all four wheels are switched off.
\<close>

definition wheels_mapped :: "engines \<Rightarrow> bool" where
  "wheels_mapped eng =
     (wheel eng FRONT_LEFT \<noteq> None \<and> wheel eng FRONT_RIGHT \<noteq> None \<and>
      wheel eng REAR_LEFT \<noteq> None \<and> wheel eng REAR_RIGHT \<noteq> None)"

definition wheel_off :: "engines \<Rightarrow> hw \<Rightarrow> string \<Rightarrow> bool" where
  "wheel_off eng h position =
     (case wheel eng position of
        None \<Rightarrow> False
      | Some (ch, inversion) \<Rightarrow>
          \<not> in1 (gpio h ch) \<and> \<not> in2 (gpio h ch) \<and> duty (gpio h ch) = 0)"

definition all_stopped :: "engines \<Rightarrow> hw \<Rightarrow> bool" where
  "all_stopped eng h =
     (wheel_off eng h FRONT_LEFT \<and> wheel_off eng h FRONT_RIGHT \<and>
      wheel_off eng h REAR_LEFT \<and> wheel_off eng h REAR_RIGHT)"

text \<open>
  Example inputs: the hardware after \<^verbatim>\<open>Engines._setup_gpio\<close>; engines whose four channels
  drive the four wheels, with right-angle turn time \<open>rt\<close>; engines whose configuration maps
  two channels to the front right wheel and none to the front left one.
\<close>

definition initial_hw :: hw where
  "initial_hw = \<lparr>gpio = (\<lambda>ch. \<lparr>in1 = False, in2 = False, duty = 0\<rparr>), slept = []\<rparr>"

definition example_mapping :: "channel \<Rightarrow> string" where
  "example_mapping ch =
     (case ch of Driver1_a \<Rightarrow> FRONT_LEFT | Driver1_b \<Rightarrow> FRONT_RIGHT
               | Driver2_a \<Rightarrow> REAR_LEFT | Driver2_b \<Rightarrow> REAR_RIGHT)"

definition doubled_mapping :: "channel \<Rightarrow> string" where
  "doubled_mapping ch =
     (case ch of Driver1_a \<Rightarrow> FRONT_RIGHT | Driver1_b \<Rightarrow> FRONT_RIGHT
               | Driver2_a \<Rightarrow> REAR_LEFT | Driver2_b \<Rightarrow> REAR_RIGHT)"

definition example_engines :: "(channel \<Rightarrow> string) \<Rightarrow> real \<Rightarrow> engines" where
  "example_engines motor_mapping rt =
     \<lparr>wheel = setup_channels motor_mapping (\<lambda>ch. 1),
      base_speed = 40, max_speed = 60, min_speed = 20, turn_speed = 40,
      min_turn_speed = - 30, search_turn_speed = 30, right_angle_turn_speed = 40,
      right_angle_turn_time = rt, search_time = 2\<rparr>"

definition example_controller :: "(channel \<Rightarrow> string) \<Rightarrow> real \<Rightarrow> controller" where
  "example_controller motor_mapping rt =
     RobotController (PIDController 1 0 0 0 100) (example_engines motor_mapping rt) True
       initial_hw"

section \<open>Properties of the PID controller\<close>

lemma clamp_abs_le: "0 \<le> m \<Longrightarrow> \<bar>max (- m) (min m (x::real))\<bar> \<le> m"
  by (simp add: abs_le_iff max_def min_def)

lemma clamp_bounds: "lo \<le> hi \<Longrightarrow> lo \<le> max lo (min hi (x::real)) \<and> max lo (min hi x) \<le> hi"
  by (simp add: max_def min_def)

lemma compute_snd:
  "snd (compute s now err) =
     s\<lparr>last_time := Some now,
       integral := max (- max_integral s) (min (max_integral s)
         (integral s + (if \<bar>err\<bar> < dead_zone s then 0 else err) * compute_dt s now)),
       last_error := (if \<bar>err\<bar> < dead_zone s then 0 else err)\<rparr>"
  by (simp only: compute_def Let_def snd_conv)

lemma compute_fst: "\<exists>x. fst (compute s now err) = max (- 100) (min 100 x)"
  by (simp only: compute_def Let_def fst_conv) (rule exI, rule refl)

lemma compute_max_integral: "max_integral (snd (compute s now err)) = max_integral s"
  by (simp add: compute_snd)

lemma compute_integral_bound:
  "0 \<le> max_integral s \<Longrightarrow> \<bar>integral (snd (compute s now err))\<bar> \<le> max_integral s"
  by (simp add: compute_snd clamp_abs_le del: abs_le_iff)

lemma compute_output_bound:
  "- 100 \<le> fst (compute s now err) \<and> fst (compute s now err) \<le> 100"
proof -
  obtain x where x: "fst (compute s now err) = max (- 100) (min 100 x)"
    using compute_fst by blast
  show ?thesis unfolding x by (rule clamp_bounds) simp
qed

lemma compute_last_time: "last_time (snd (compute s now err)) = Some now"
  by (simp add: compute_snd)

lemma compute_dt_first: "last_time s = None \<Longrightarrow> compute_dt s now = 33 / 1000"
  by (simp add: compute_dt_def)

lemma compute_first_call:
  "last_time s = None \<Longrightarrow> fst (compute s now err) = fst (compute s now' err)"
  by (simp only: compute_def Let_def fst_conv compute_dt_first)

lemma reset_is_fresh:
  "reset s = PIDController (kp s) (ki s) (kd s) (dead_zone s) (max_integral s)"
  by (simp add: reset_def PIDController_def)



text \<open>
  C2. With the gains fixed, whatever state earlier calls have left and whatever the error
  and the clock readings, every call of \<^verbatim>\<open>compute\<close> returns a value within
  \<open>[- 100, 100]\<close>.
\<close>

theorem output_always_clamped:
  "\<forall>r \<in> set (compute_calls s calls). - 100 \<le> fst r \<and> fst r \<le> 100"
proof (induction calls arbitrary: s)
  case Nil
  show ?case by simp
next
  case (Cons c cs)
  obtain now err where c: "c = (now, err)" by (cases c)
  show ?case
    using compute_output_bound [of s now err] Cons.IH [of "snd (compute s now err)"]
    by (simp add: c Let_def)
qed

theorem output_always_clamped_witness:
  "map fst (compute_calls (PIDController 1 1 0 0 100) [(0, 2000), (1, - 5000)]) = [100, - 100] \<and>
   list_all (\<lambda>r. - 100 \<le> fst r \<and> fst r \<le> 100)
     (compute_calls (PIDController 1 1 0 0 100) [(0, 2000), (1, - 5000)])"
proof -
  have v: "map fst (compute_calls (PIDController 1 1 0 0 100) [(0, 2000), (1, - 5000)])
      = [100, - 100]"
    by code_simp
  from output_always_clamped [of "PIDController 1 1 0 0 100" "[(0, 2000), (1, - 5000)]"] v
  show ?thesis by (simp add: list_all_iff)
qed

text \<open>
  C6. \<^verbatim>\<open>reset()\<close> followed by \<^verbatim>\<open>compute(e)\<close> returns what a freshly constructed
  controller with the same parameters returns for \<open>e\<close> as its first sample. Both calls
  take the first-call time step, so the two clock readings need not agree.
\<close>

theorem reset_then_compute_as_fresh:
  "fst (compute (reset s) now e) =
   fst (compute (PIDController (kp s) (ki s) (kd s) (dead_zone s) (max_integral s)) now' e)"
  unfolding reset_is_fresh by (rule compute_first_call) (simp add: PIDController_def)

text \<open>
  C8, as the code has it. On the first call of \<^verbatim>\<open>compute\<close> after construction and on
  the first call after any \<^verbatim>\<open>reset()\<close> the time step is \<open>0.033\<close> s (the source's
  constant, commented as about 30 frames per second); on a call that follows a call made at
  clock reading \<open>t\<close> the time step is the clock difference \<open>now - t\<close>, floored at
  \<open>0.001\<close> s.
\<close>

theorem compute_dt_spec:
  "compute_dt (PIDController p i d dz mi) now = 33 / 1000 \<and>
   compute_dt (reset s) now = 33 / 1000 \<and>
   compute_dt (snd (compute s t err)) now = max (now - t) (1 / 1000)"
  by (simp add: compute_dt_def PIDController_def reset_def compute_last_time)

text \<open>
  C8 as stated fails: the first-call time step is not \<open>1/30\<close> s.
\<close>

theorem first_dt_counterexample:
  "compute_dt (PIDController 1 0 0 0 100) 0 \<noteq> 1 / 30"
  by (simp add: compute_dt_def PIDController_def)
section \<open>Properties of blob selection\<close>

lemma max_area_mem: "max_area b cs \<in> set (b # cs)"
  by (induction cs arbitrary: b) auto

lemma max_area_ge: "c \<in> set (b # cs) \<Longrightarrow> area c \<le> area (max_area b cs)"
proof (induction cs arbitrary: b c)
  case Nil
  then show ?case by simp
next
  case (Cons x xs)
  let ?b' = "if area b < area x then x else b"
  have step: "max_area b (x # xs) = max_area ?b' xs" by simp
  have b': "area b \<le> area ?b'" "area x \<le> area ?b'" by simp_all
  have top: "area ?b' \<le> area (max_area ?b' xs)"
    by (rule Cons.IH) simp
  from Cons.prems consider "c = b" | "c = x" | "c \<in> set xs" by auto
  then show ?case
  proof cases
    case 1
    with b' have "area c \<le> area ?b'" by simp
    with top show ?thesis unfolding step by linarith
  next
    case 2
    with b' have "area c \<le> area ?b'" by simp
    with top show ?thesis unfolding step by linarith
  next
    case 3
    then have "c \<in> set (?b' # xs)" by simp
    from Cons.IH [OF this] show ?thesis unfolding step .
  qed
qed

lemma py_max_area_largest:
  "cs \<noteq> [] \<Longrightarrow> \<exists>b. py_max_area cs = Inr b \<and> b \<in> set cs \<and> (\<forall>c \<in> set cs. area c \<le> area b)"
proof (cases cs)
  case Nil
  assume "cs \<noteq> []"
  with Nil show ?thesis by simp
next
  case (Cons x xs)
  have "py_max_area cs = Inr (max_area x xs)" by (simp add: py_max_area_def Cons)
  moreover have "max_area x xs \<in> set cs" unfolding Cons by (rule max_area_mem)
  moreover have "\<forall>c \<in> set cs. area c \<le> area (max_area x xs)"
    unfolding Cons using max_area_ge by blast
  ultimately show ?thesis by blast
qed

lemma score_pos: "passes c \<Longrightarrow> 0 < score l p c"
proof -
  assume "passes c"
  then have a: "0 < area c" by (simp add: passes_def)
  have "0 < real_of_int (\<bar>centroid_x c - l\<bar> + 1)" by simp
  then have "0 < real_of_int (\<bar>centroid_x c - l\<bar> + 1) powr p" by simp
  with a show ?thesis by (simp add: score_def Let_def)
qed

lemma best_loop_skip:
  "\<not> passes c \<Longrightarrow> best_loop l p (c # cs) acc = best_loop l p cs acc"
  by (cases acc) (auto simp: passes_def)

lemma best_loop_take:
  "passes c \<Longrightarrow> snd acc < score l p c \<Longrightarrow>
   best_loop l p (c # cs) acc = best_loop l p cs (Some c, score l p c)"
  by (cases acc) (auto simp: passes_def)

lemma best_loop_keep:
  "passes c \<Longrightarrow> \<not> snd acc < score l p c \<Longrightarrow>
   best_loop l p (c # cs) acc = best_loop l p cs acc"
  by (cases acc) (auto simp: passes_def)

lemma best_inv_step:
  assumes "best_inv l p seen acc"
  shows "best_inv l p (seen @ [c]) (best_loop l p [c] acc)"
proof (cases "passes c")
  case False
  then have "best_loop l p [c] acc = acc" by (simp add: best_loop_skip)
  with assms False show ?thesis
    by (auto simp: best_inv_def list_all_iff split: option.splits)
next
  case True
  note pc = score_pos [OF True, of l p]
  show ?thesis
  proof (cases "snd acc < score l p c")
    case less: True
    with True have e: "best_loop l p [c] acc = (Some c, score l p c)"
      by (simp add: best_loop_take)
    have "\<forall>x \<in> set seen. passes x \<longrightarrow> score l p x \<le> score l p c"
      using assms less by (auto simp: best_inv_def list_all_iff split: option.splits)
    with True show ?thesis unfolding e by (simp add: best_inv_def list_all_iff)
  next
    case geq: False
    with True have e: "best_loop l p [c] acc = acc" by (simp add: best_loop_keep)
    from geq pc have "snd acc \<noteq> - 1" by linarith
    with assms geq True show ?thesis unfolding e
      by (auto simp: best_inv_def list_all_iff split: option.splits)
  qed
qed

lemma best_loop_append:
  "best_loop l p (xs @ ys) acc = best_loop l p ys (best_loop l p xs acc)"
proof (induction xs arbitrary: acc)
  case Nil
  show ?case by simp
next
  case (Cons x xs)
  obtain b bs where acc: "acc = (b, bs)" by (cases acc)
  show ?case unfolding acc using Cons.IH by simp
qed

lemma best_inv_loop:
  "best_inv l p seen acc \<Longrightarrow> best_inv l p (seen @ cs) (best_loop l p cs acc)"
proof (induction cs arbitrary: seen acc)
  case Nil
  then show ?case by simp
next
  case (Cons c cs)
  have "best_inv l p ((seen @ [c]) @ cs) (best_loop l p cs (best_loop l p [c] acc))"
    by (rule Cons.IH, rule best_inv_step, rule Cons.prems)
  moreover have "best_loop l p (c # cs) acc = best_loop l p cs (best_loop l p [c] acc)"
    using best_loop_append [of l p "[c]" cs acc] by simp
  ultimately show ?case by simp
qed

lemma best_inv_result: "best_inv l p cs (best_loop l p cs (None, - 1))"
  using best_inv_loop [of l p "[]" "(None, - 1)" cs] by (simp add: best_inv_def)

lemma best_contour_total:
  "cs \<noteq> [] \<Longrightarrow> \<exists>b. best_contour s cs = Inr b \<and> b \<in> set cs"
proof -
  assume ne: "cs \<noteq> []"
  from py_max_area_largest [OF ne] obtain m where
    m: "py_max_area cs = Inr m" "m \<in> set cs" by blast
  show ?thesis
  proof (cases "prev_centers s = []")
    case True
    with m show ?thesis by (simp add: best_contour_def)
  next
    case False
    let ?r = "best_loop (last (prev_centers s)) (continuity_power s) cs (None, - 1)"
    show ?thesis
    proof (cases "fst ?r")
      case None
      with False m show ?thesis by (simp add: best_contour_def)
    next
      case (Some b)
      with best_inv_result [of "last (prev_centers s)" "continuity_power s" cs]
      have "b \<in> set cs" by (simp add: best_inv_def)
      with False Some show ?thesis by (simp add: best_contour_def)
    qed
  qed
qed

text \<open>
  C3. On a non-empty list of regions \<^verbatim>\<open>_best_contour\<close> returns one of them. When the
  history is non-empty and some region has area at least 100 and a defined centroid
  (\<open>m00 \<noteq> 0\<close>), the region returned is such a candidate and its score
  \<open>area / (|centroid_x - last_known_x| + 1) ^ continuity_power\<close> is largest among exactly
  these candidates. Otherwise (empty history, or no candidate passes the filter) the region
  returned has the largest area of all.
\<close>

theorem best_contour_selects:
  assumes "contours \<noteq> []"
  shows "\<exists>b. best_contour s contours = Inr b \<and> b \<in> set contours \<and>
     (if prev_centers s \<noteq> [] \<and> (\<exists>c \<in> set contours. 100 \<le> area c \<and> m00 c \<noteq> 0)
      then 100 \<le> area b \<and> m00 b \<noteq> 0 \<and>
        (\<forall>c \<in> set contours. 100 \<le> area c \<and> m00 c \<noteq> 0 \<longrightarrow>
           area c / real_of_int (\<bar>centroid_x c - last (prev_centers s)\<bar> + 1)
                      powr continuity_power s
           \<le> area b / real_of_int (\<bar>centroid_x b - last (prev_centers s)\<bar> + 1)
                      powr continuity_power s)
      else (\<forall>c \<in> set contours. area c \<le> area b))"
proof -
  let ?l = "last (prev_centers s)" and ?p = "continuity_power s"
  let ?r = "best_loop ?l ?p contours (None, - 1)"
  have inv: "best_inv ?l ?p contours ?r" by (rule best_inv_result)
  from py_max_area_largest [OF assms] obtain m where
    m: "py_max_area contours = Inr m" "m \<in> set contours" "\<forall>c \<in> set contours. area c \<le> area m"
    by blast
  have sc: "\<And>c. score ?l ?p c = area c / real_of_int (\<bar>centroid_x c - ?l\<bar> + 1) powr ?p"
    by (simp add: score_def Let_def)
  show ?thesis
  proof (cases "prev_centers s = []")
    case True
    with m show ?thesis by (simp add: best_contour_def)
  next
    case hist: False
    show ?thesis
    proof (cases "fst ?r")
      case None
      with inv have "\<forall>c \<in> set contours. \<not> passes c" by (simp add: best_inv_def list_all_iff)
      then have none: "\<not> (\<exists>c \<in> set contours. 100 \<le> area c \<and> m00 c \<noteq> 0)"
        by (simp add: passes_def)
      then have ncond: "\<not> (prev_centers s \<noteq> [] \<and>
          (\<exists>c \<in> set contours. 100 \<le> area c \<and> m00 c \<noteq> 0))"
        by blast
      from hist None m have r: "best_contour s contours = Inr m" by (simp add: best_contour_def)
      show ?thesis
      proof (intro exI conjI)
        show "best_contour s contours = Inr m" by (rule r)
        show "m \<in> set contours" by (rule m(2))
        show "if prev_centers s \<noteq> [] \<and> (\<exists>c \<in> set contours. 100 \<le> area c \<and> m00 c \<noteq> 0)
          then 100 \<le> area m \<and> m00 m \<noteq> 0 \<and>
            (\<forall>c \<in> set contours. 100 \<le> area c \<and> m00 c \<noteq> 0 \<longrightarrow>
               area c / real_of_int (\<bar>centroid_x c - ?l\<bar> + 1) powr ?p
               \<le> area m / real_of_int (\<bar>centroid_x m - ?l\<bar> + 1) powr ?p)
          else (\<forall>c \<in> set contours. area c \<le> area m)"
          unfolding if_not_P [OF ncond] by (rule m(3))
      qed
    next
      case (Some b)
      with inv have b: "b \<in> set contours" "passes b"
        "\<forall>c \<in> set contours. passes c \<longrightarrow> score ?l ?p c \<le> score ?l ?p b"
        by (simp_all add: best_inv_def list_all_iff)
      from hist Some have r: "best_contour s contours = Inr b" by (simp add: best_contour_def)
      from b have ex: "\<exists>c \<in> set contours. 100 \<le> area c \<and> m00 c \<noteq> 0"
        unfolding passes_def by blast
      from b(2) have pb: "100 \<le> area b" "m00 b \<noteq> 0" by (simp_all add: passes_def)
      from b(3) have mx: "\<forall>c \<in> set contours. 100 \<le> area c \<and> m00 c \<noteq> 0 \<longrightarrow>
           area c / real_of_int (\<bar>centroid_x c - ?l\<bar> + 1) powr ?p
           \<le> area b / real_of_int (\<bar>centroid_x b - ?l\<bar> + 1) powr ?p"
        unfolding passes_def sc by blast
      from hist ex have cond: "prev_centers s \<noteq> [] \<and>
          (\<exists>c \<in> set contours. 100 \<le> area c \<and> m00 c \<noteq> 0)"
        by blast
      show ?thesis
      proof (intro exI conjI)
        show "best_contour s contours = Inr b" by (rule r)
        show "b \<in> set contours" by (rule b(1))
        show "if prev_centers s \<noteq> [] \<and> (\<exists>c \<in> set contours. 100 \<le> area c \<and> m00 c \<noteq> 0)
          then 100 \<le> area b \<and> m00 b \<noteq> 0 \<and>
            (\<forall>c \<in> set contours. 100 \<le> area c \<and> m00 c \<noteq> 0 \<longrightarrow>
               area c / real_of_int (\<bar>centroid_x c - ?l\<bar> + 1) powr ?p
               \<le> area b / real_of_int (\<bar>centroid_x b - ?l\<bar> + 1) powr ?p)
          else (\<forall>c \<in> set contours. area c \<le> area b)"
          unfolding if_P [OF cond] by (intro conjI pb mx)
      qed
    qed
  qed
qed

section \<open>Properties of frame processing\<close>

lemma found_update_unfold:
  "found_update s b =
     s\<lparr>prev_centers :=
         (if max_memory s < int (length (prev_centers s @ [centroid_x b]))
          then tl (prev_centers s @ [centroid_x b]) else prev_centers s @ [centroid_x b]),
       d_error := (if rotation s = 180 then - real_of_int (centroid_x b - cx s)
                   else real_of_int (centroid_x b - cx s)),
       line_lost := False,
       right_angle :=
         (ra_enabled s \<and>
          3 \<le> length (if max_memory s < int (length (prev_centers s @ [centroid_x b]))
                then tl (prev_centers s @ [centroid_x b]) else prev_centers s @ [centroid_x b]) \<and>
          list_all (\<lambda>e. ra_threshold s < e)
            (map (\<lambda>c. real_of_int \<bar>c - cx s\<bar>)
              (drop (length (if max_memory s < int (length (prev_centers s @ [centroid_x b]))
                       then tl (prev_centers s @ [centroid_x b])
                       else prev_centers s @ [centroid_x b]) - 3)
                 (if max_memory s < int (length (prev_centers s @ [centroid_x b]))
                  then tl (prev_centers s @ [centroid_x b])
                  else prev_centers s @ [centroid_x b]))))\<rparr>"
  by (simp only: found_update_def Let_def)

lemma found_config:
  "cx (found_update s b) = cx s"
  "ra_threshold (found_update s b) = ra_threshold s"
  "ra_enabled (found_update s b) = ra_enabled s"
  "max_memory (found_update s b) = max_memory s"
  "rotation (found_update s b) = rotation s"
  by (simp_all add: found_update_unfold)

lemma found_line_lost: "line_lost (found_update s b) = False"
  by (simp add: found_update_unfold)

lemma found_error:
  "d_error (found_update s b) =
     (if rotation s = 180 then - real_of_int (centroid_x b - cx s)
      else real_of_int (centroid_x b - cx s))"
  by (simp add: found_update_unfold)

lemma found_prev_centers:
  "prev_centers (found_update s b) =
     (if max_memory s < int (length (prev_centers s @ [centroid_x b]))
      then tl (prev_centers s @ [centroid_x b]) else prev_centers s @ [centroid_x b])"
  by (simp add: found_update_unfold)

lemma found_right_angle:
  "right_angle (found_update s b) =
     (ra_enabled s \<and> 3 \<le> length (prev_centers (found_update s b)) \<and>
      (\<forall>c \<in> set (drop (length (prev_centers (found_update s b)) - 3)
                      (prev_centers (found_update s b))).
         ra_threshold s < real_of_int \<bar>c - cx s\<bar>))"
  unfolding found_prev_centers
  by (simp add: found_update_unfold list_all_iff del: of_int_abs of_int_diff)

lemma lost_fields:
  "cx (lost_update s) = cx s"
  "ra_threshold (lost_update s) = ra_threshold s"
  "ra_enabled (lost_update s) = ra_enabled s"
  "max_memory (lost_update s) = max_memory s"
  "line_lost (lost_update s) = True"
  "d_error (lost_update s) = 0"
  "right_angle (lost_update s) = False"
  "prev_centers (lost_update s) = []"
  by (simp_all add: lost_update_def)

lemma process_cases:
  "(process s f = Inr (lost_update s) \<and>
      \<not> (\<exists>b. best_contour s (filter (\<lambda>c. 50 < area c) f) = Inr b \<and> 0 < m00 b)) \<or>
   (\<exists>b. best_contour s (filter (\<lambda>c. 50 < area c) f) = Inr b \<and> 0 < m00 b \<and>
        process s f = Inr (found_update s b))"
proof (cases "filter (\<lambda>c. 50 < area c) f = []")
  case True
  then have p: "process s f = Inr (lost_update s)" by (simp add: process_def)
  have "py_max_area [] = Inl ValueError" by (simp add: py_max_area_def)
  then have "best_contour s [] = Inl ValueError" by (simp add: best_contour_def)
  with p True show ?thesis by simp
next
  case False
  then have ne: "f \<noteq> []" by auto
  from best_contour_total [OF False] obtain b where
    b: "best_contour s (filter (\<lambda>c. 50 < area c) f) = Inr b" by blast
  from False ne b have p:
    "process s f = Inr (if 0 < m00 b then found_update s b else lost_update s)"
    by (simp add: process_def Let_def)
  show ?thesis
  proof (cases "0 < m00 b")
    case True
    with p b show ?thesis by simp
  next
    case False
    with p b show ?thesis by simp
  qed
qed

lemma loop_frames_append: "loop_frames s (xs @ ys) = loop_frames (loop_frames s xs) ys"
  by (induction xs arbitrary: s) (auto split: sum.splits)

lemma frame_cases:
  "loop_frames s [f] = lost_update s \<or> (\<exists>b. loop_frames s [f] = found_update s b)"
  using process_cases [of s f] by auto

lemma frame_config:
  "cx (loop_frames s [f]) = cx s"
  "ra_threshold (loop_frames s [f]) = ra_threshold s"
  "ra_enabled (loop_frames s [f]) = ra_enabled s"
  "max_memory (loop_frames s [f]) = max_memory s"
  using frame_cases [of s f] by (auto simp: found_config lost_fields)

lemma frame_right_angle:
  "right_angle (loop_frames s [f]) =
     (ra_enabled s \<and> 3 \<le> length (prev_centers (loop_frames s [f])) \<and>
      (\<forall>c \<in> set (drop (length (prev_centers (loop_frames s [f])) - 3)
                      (prev_centers (loop_frames s [f]))).
         ra_threshold s < real_of_int \<bar>c - cx s\<bar>))"
proof -
  from frame_cases [of s f] consider "loop_frames s [f] = lost_update s"
    | b where "loop_frames s [f] = found_update s b" by blast
  then show ?thesis
  proof cases
    case 1
    show ?thesis unfolding 1 by (simp add: lost_fields)
  next
    case 2
    show ?thesis unfolding 2 by (rule found_right_angle)
  qed
qed

lemma frame_length:
  "length (prev_centers (loop_frames s [f])) \<le> length (prev_centers s) + 1"
proof -
  from frame_cases [of s f] consider "loop_frames s [f] = lost_update s"
    | b where "loop_frames s [f] = found_update s b" by blast
  then show ?thesis
  proof cases
    case 1
    show ?thesis unfolding 1 by (simp add: lost_fields)
  next
    case 2
    show ?thesis unfolding 2 by (simp add: found_prev_centers)
  qed
qed

lemma found_suffix:
  assumes "int (length suf) + 1 \<le> max_memory s" and "prev_centers s = p @ suf"
  shows "\<exists>p'. prev_centers (found_update s b) = p' @ suf @ [centroid_x b]"
proof (cases "max_memory s < int (length (prev_centers s @ [centroid_x b]))")
  case False
  then have "prev_centers (found_update s b) = p @ suf @ [centroid_x b]"
    by (simp add: found_prev_centers assms(2))
  then show ?thesis by blast
next
  case True
  with assms have "p \<noteq> []" by auto
  then have "tl (p @ suf @ [centroid_x b]) = tl p @ suf @ [centroid_x b]" by simp
  with True have "prev_centers (found_update s b) = tl p @ suf @ [centroid_x b]"
    by (simp add: found_prev_centers assms(2))
  then show ?thesis by blast
qed

lemma far_frame:
  assumes "far_off_center (loop_frames s [f])"
  shows "\<exists>b. loop_frames s [f] = found_update s b \<and>
             ra_threshold s < real_of_int \<bar>centroid_x b - cx s\<bar>"
proof -
  from assms have nl: "\<not> line_lost (loop_frames s [f])"
    and far: "ra_threshold (loop_frames s [f]) < \<bar>d_error (loop_frames s [f])\<bar>"
    by (simp_all add: far_off_center_def is_line_lost_def get_error_def)
  from frame_cases [of s f] nl obtain b where b: "loop_frames s [f] = found_update s b"
    by (auto simp: lost_fields)
  have "\<bar>d_error (found_update s b)\<bar> = real_of_int \<bar>centroid_x b - cx s\<bar>"
    by (simp add: found_error abs_minus_commute)
  with far b have "ra_threshold s < real_of_int \<bar>centroid_x b - cx s\<bar>"
    by (simp add: found_config)
  with b show ?thesis by blast
qed

lemma centroid_x_blob: "a \<noteq> 0 \<Longrightarrow> centroid_x (blob a x) = x"
  by (simp add: centroid_x_def blob_def py_int_def)

lemma blob_fields: "area (blob a x) = a" "m00 (blob a x) = a"
  by (simp_all add: blob_def)

theorem best_contour_selects_witness:
  "[blob 4000 180, blob 1200 103] \<noteq> [] \<and>
   best_contour ((LineDetector 320 0 2 10 80 True)\<lparr>prev_centers := [100]\<rparr>)
     [blob 4000 180, blob 1200 103] = Inr (blob 1200 103) \<and>
   best_contour (LineDetector 320 0 2 10 80 True)
     [blob 4000 180, blob 1200 103] = Inr (blob 4000 180)"
proof -
  have a: "best_contour ((LineDetector 320 0 2 10 80 True)\<lparr>prev_centers := [100]\<rparr>)
     [blob 4000 180, blob 1200 103] = Inr (blob 1200 103)"
    by (simp add: best_contour_def LineDetector_def score_def centroid_x_blob blob_fields)
  have b: "best_contour (LineDetector 320 0 2 10 80 True)
     [blob 4000 180, blob 1200 103] = Inr (blob 4000 180)"
    by (simp add: best_contour_def LineDetector_def py_max_area_def blob_fields)
  from best_contour_selects
    [of "[blob 4000 180, blob 1200 103]" "(LineDetector 320 0 2 10 80 True)\<lparr>prev_centers := [100]\<rparr>"]
    a b
  show ?thesis by simp
qed

text \<open>
  C7. When the frame has a region of area above 50, \<^verbatim>\<open>_process\<close> selects one with
  \<^verbatim>\<open>_best_contour\<close>; if its centroid is well defined (\<open>m00 > 0\<close>) the observation is
  published as found and its error is \<open>centroid_x - frame_center_x\<close>, negated when the
  configured rotation is 180; otherwise the observation is published as lost.
\<close>

theorem process_publishes_error:
  assumes "filter (\<lambda>c. 50 < area c) contours \<noteq> []"
  shows "\<exists>best s'. best_contour s (filter (\<lambda>c. 50 < area c) contours) = Inr best \<and>
     process s contours = Inr s' \<and>
     (if 0 < m00 best
      then \<not> is_line_lost s' \<and>
           get_error s' = (if rotation s = 180 then - real_of_int (centroid_x best - cx s)
                           else real_of_int (centroid_x best - cx s))
      else is_line_lost s')"
proof -
  from best_contour_total [OF assms] obtain b where
    b: "best_contour s (filter (\<lambda>c. 50 < area c) contours) = Inr b" by blast
  from process_cases [of s contours] b consider
    (lost) "process s contours = Inr (lost_update s)" "\<not> 0 < m00 b"
    | (found) "process s contours = Inr (found_update s b)" "0 < m00 b"
    by auto
  then show ?thesis
  proof cases
    case lost
    have "is_line_lost (lost_update s)" by (simp add: is_line_lost_def lost_fields)
    with lost b show ?thesis by auto
  next
    case found
    have "\<not> is_line_lost (found_update s b)" by (simp add: is_line_lost_def found_line_lost)
    moreover have "get_error (found_update s b) =
      (if rotation s = 180 then - real_of_int (centroid_x b - cx s)
       else real_of_int (centroid_x b - cx s))"
      unfolding get_error_def by (rule found_error)
    ultimately show ?thesis using found b by auto
  qed
qed

theorem process_publishes_error_witness:
  "filter (\<lambda>c. 50 < area c) [blob 1000 200] \<noteq> [] \<and>
   (\<exists>s'. process (LineDetector 320 180 2 10 80 True) [blob 1000 200] = Inr s' \<and>
         \<not> is_line_lost s' \<and> get_error s' = - 40) \<and>
   (\<exists>s'. process (LineDetector 320 0 2 10 80 True) [blob 1000 200] = Inr s' \<and>
         \<not> is_line_lost s' \<and> get_error s' = 40)"
proof -
  have f: "filter (\<lambda>c. 50 < area c) [blob 1000 200] = [blob 1000 200]"
    by (simp add: blob_fields)
  have b: "\<And>r. best_contour (LineDetector 320 r 2 10 80 True) [blob 1000 200]
      = Inr (blob 1000 200)"
    by (simp add: best_contour_def LineDetector_def py_max_area_def)
  have c: "\<And>r. cx (LineDetector 320 r 2 10 80 True) = 160"
    "\<And>r. rotation (LineDetector 320 r 2 10 80 True) = r"
    by (simp_all add: LineDetector_def)
  from process_publishes_error [of "[blob 1000 200]" "LineDetector 320 180 2 10 80 True"]
  have 1: "\<exists>s'. process (LineDetector 320 180 2 10 80 True) [blob 1000 200] = Inr s' \<and>
         \<not> is_line_lost s' \<and> get_error s' = - 40"
    unfolding f b c by (simp add: blob_fields centroid_x_blob)
  from process_publishes_error [of "[blob 1000 200]" "LineDetector 320 0 2 10 80 True"]
  have 2: "\<exists>s'. process (LineDetector 320 0 2 10 80 True) [blob 1000 200] = Inr s' \<and>
         \<not> is_line_lost s' \<and> get_error s' = 40"
    unfolding f b c by (simp add: blob_fields centroid_x_blob)
  from f 1 2 show ?thesis by simp
qed

text \<open>
  C10. \<^verbatim>\<open>_process\<close> always publishes an observation. It is published as lost exactly
  when no region is selected with \<open>m00 > 0\<close> (in particular when no region has area above
  50), and whenever it is published as lost the published error is 0 and the published
  right-angle flag is false, whatever the error observed before.
\<close>

theorem lost_publishes_zero_error:
  "\<exists>s'. process s contours = Inr s' \<and>
     (is_line_lost s' \<longleftrightarrow>
        \<not> (\<exists>b. best_contour s (filter (\<lambda>c. 50 < area c) contours) = Inr b \<and> 0 < m00 b)) \<and>
     (is_line_lost s' \<longrightarrow> get_error s' = 0 \<and> \<not> is_right_angle s') \<and>
     (filter (\<lambda>c. 50 < area c) contours = [] \<longrightarrow> is_line_lost s')"
proof -
  from process_cases [of s contours] consider
    (lost) "process s contours = Inr (lost_update s)"
      "\<not> (\<exists>b. best_contour s (filter (\<lambda>c. 50 < area c) contours) = Inr b \<and> 0 < m00 b)"
    | (found) b where "process s contours = Inr (found_update s b)"
      "best_contour s (filter (\<lambda>c. 50 < area c) contours) = Inr b" "0 < m00 b"
    by blast
  then show ?thesis
  proof cases
    case lost
    have "is_line_lost (lost_update s)" "get_error (lost_update s) = 0"
      "\<not> is_right_angle (lost_update s)"
      by (simp_all add: is_line_lost_def get_error_def is_right_angle_def lost_fields)
    with lost show ?thesis by simp
  next
    case found
    have nl: "\<not> is_line_lost (found_update s b)"
      by (simp add: is_line_lost_def found_line_lost)
    have ne: "filter (\<lambda>c. 50 < area c) contours \<noteq> []"
    proof
      assume "filter (\<lambda>c. 50 < area c) contours = []"
      then have "best_contour s (filter (\<lambda>c. 50 < area c) contours) = Inl ValueError"
        by (simp add: best_contour_def py_max_area_def)
      with found(2) show False by simp
    qed
    from found nl ne show ?thesis by auto
  qed
qed

theorem lost_publishes_zero_error_witness:
  "get_error ((LineDetector 320 0 2 10 80 True)
      \<lparr>d_error := 40, line_lost := False, prev_centers := [200]\<rparr>) = 40 \<and>
   (\<exists>s'. process ((LineDetector 320 0 2 10 80 True)
             \<lparr>d_error := 40, line_lost := False, prev_centers := [200]\<rparr>) [blob 30 200] = Inr s' \<and>
         is_line_lost s' \<and> get_error s' = 0 \<and> \<not> is_right_angle s')"
proof -
  have f: "filter (\<lambda>c. 50 < area c) [blob 30 200] = []" by (simp add: blob_fields)
  have g: "get_error ((LineDetector 320 0 2 10 80 True)
      \<lparr>d_error := 40, line_lost := False, prev_centers := [200]\<rparr>) = 40"
    by (simp add: get_error_def)
  from lost_publishes_zero_error [of "(LineDetector 320 0 2 10 80 True)
      \<lparr>d_error := 40, line_lost := False, prev_centers := [200]\<rparr>" "[blob 30 200]"] f g
  show ?thesis by auto
qed


lemma process_single_blob:
  "50 < a \<Longrightarrow> process s [blob a x] = Inr (found_update s (blob a x))"
proof -
  assume a: "50 < a"
  then have f: "filter (\<lambda>c. 50 < area c) [blob a x] = [blob a x]" by (simp add: blob_fields)
  from best_contour_total [of "[blob a x]" s]
  have b: "best_contour s [blob a x] = Inr (blob a x)" by auto
  from a have "0 < m00 (blob a x)" by (simp add: blob_fields)
  with a b show ?thesis by (simp add: process_def blob_fields)
qed

lemma loop_single_blob:
  "50 < a \<Longrightarrow> loop_frames s ([blob a x] # fs) = loop_frames (found_update s (blob a x)) fs"
  by (simp add: process_single_blob)

lemma found_last_blob:
  "a \<noteq> 0 \<Longrightarrow>
   \<not> line_lost (found_update s (blob a x)) \<and>
   \<bar>d_error (found_update s (blob a x))\<bar> = real_of_int \<bar>x - cx s\<bar>"
  by (simp add: found_line_lost found_error centroid_x_blob abs_minus_commute)



section \<open>Properties of the engines\<close>

lemma and_then_Inr: "and_then (Inr s) f = f s"
  by (simp add: and_then_def)

lemma and_then_Inl: "and_then (Inl x) f = Inl x"
  by (simp add: and_then_def)

lemma drive_zero: "drive (clamp (0 * inversion) (- 100) 100) = \<lparr>in1 = False, in2 = False, duty = 0\<rparr>"
  by (simp add: drive_def clamp_def)

lemma set_wheel_mapped:
  "wheel eng position = Some (ch, inversion) \<Longrightarrow>
   set_wheel eng position v h =
     Inr (h\<lparr>gpio := (gpio h)(ch := drive (clamp (v * inversion) (- 100) 100))\<rparr>)"
  by (simp add: set_wheel_def)

lemma set_wheel_unmapped: "wheel eng position = None \<Longrightarrow> set_wheel eng position v h = Inl (KeyError, h)"
  by (simp add: set_wheel_def)

lemma set_motors_mapped:
  assumes "wheel eng FRONT_LEFT = Some (c1, i1)" and "wheel eng FRONT_RIGHT = Some (c2, i2)"
    and "wheel eng REAR_LEFT = Some (c3, i3)" and "wheel eng REAR_RIGHT = Some (c4, i4)"
  shows "set_motors eng fl fr rl rr h =
     Inr (h\<lparr>gpio := (gpio h)
        (c1 := drive (clamp (fl * i1) (- 100) 100), c2 := drive (clamp (fr * i2) (- 100) 100),
         c3 := drive (clamp (rl * i3) (- 100) 100), c4 := drive (clamp (rr * i4) (- 100) 100))\<rparr>)"
  by (simp add: set_motors_def set_wheel_mapped [OF assms(1)] set_wheel_mapped [OF assms(2)]
      set_wheel_mapped [OF assms(3)] set_wheel_mapped [OF assms(4)] and_then_Inr)

lemma set_motors_unmapped:
  "wheel eng FRONT_LEFT = None \<Longrightarrow> set_motors eng fl fr rl rr h = Inl (KeyError, h)"
  by (simp add: set_motors_def set_wheel_unmapped and_then_Inl)

lemma wheels_mappedE:
  assumes "wheels_mapped eng"
  obtains c1 i1 c2 i2 c3 i3 c4 i4 where
    "wheel eng FRONT_LEFT = Some (c1, i1)" "wheel eng FRONT_RIGHT = Some (c2, i2)"
    "wheel eng REAR_LEFT = Some (c3, i3)" "wheel eng REAR_RIGHT = Some (c4, i4)"
  using assms unfolding wheels_mapped_def by fastforce

lemma set_motors_ok:
  assumes "wheels_mapped eng"
  shows "\<exists>h'. set_motors eng fl fr rl rr h = Inr h' \<and> slept h' = slept h"
proof -
  from assms obtain c1 i1 c2 i2 c3 i3 c4 i4 where
    w: "wheel eng FRONT_LEFT = Some (c1, i1)" "wheel eng FRONT_RIGHT = Some (c2, i2)"
    "wheel eng REAR_LEFT = Some (c3, i3)" "wheel eng REAR_RIGHT = Some (c4, i4)"
    by (rule wheels_mappedE)
  show ?thesis unfolding set_motors_mapped [OF w] by simp
qed

lemma stop_ok:
  assumes "wheels_mapped eng"
  shows "\<exists>h'. stop eng h = Inr h' \<and> slept h' = slept h \<and> all_stopped eng h'"
proof -
  from assms obtain c1 i1 c2 i2 c3 i3 c4 i4 where
    w: "wheel eng FRONT_LEFT = Some (c1, i1)" "wheel eng FRONT_RIGHT = Some (c2, i2)"
    "wheel eng REAR_LEFT = Some (c3, i3)" "wheel eng REAR_RIGHT = Some (c4, i4)"
    by (rule wheels_mappedE)
  let ?off = "\<lparr>in1 = False, in2 = False, duty = 0\<rparr>"
  let ?h = "h\<lparr>gpio := (gpio h)(c1 := ?off, c2 := ?off, c3 := ?off, c4 := ?off)\<rparr>"
  have s: "stop eng h = Inr ?h"
    unfolding stop_def set_motors_mapped [OF w] drive_zero by (rule refl)
  have "all_stopped eng ?h" by (simp add: all_stopped_def wheel_off_def w)
  with s show ?thesis by simp
qed

lemma stop_unmapped: "wheel eng FRONT_LEFT = None \<Longrightarrow> stop eng h = Inl (KeyError, h)"
  by (simp add: stop_def set_motors_unmapped)

lemma set_speed_ok:
  "wheels_mapped eng \<Longrightarrow> \<exists>h'. set_speed eng l r h = Inr h' \<and> slept h' = slept h"
  unfolding set_speed_def by (rule set_motors_ok)

lemma curve_ok:
  "wheels_mapped eng \<Longrightarrow> \<exists>h'. curve eng spd steer h = Inr h' \<and> slept h' = slept h"
  unfolding curve_def Let_def by (rule set_speed_ok)

lemma curve_unmapped:
  "wheel eng FRONT_LEFT = None \<Longrightarrow> curve eng spd steer h = Inl (KeyError, h)"
  by (simp add: curve_def Let_def set_speed_def set_motors_unmapped)

lemma set_speed_unmapped:
  "wheel eng FRONT_LEFT = None \<Longrightarrow> set_speed eng l r h = Inl (KeyError, h)"
  by (simp add: set_speed_def set_motors_unmapped)

lemma py_sleep_ok: "0 \<le> d \<Longrightarrow> py_sleep d h = Inr (h\<lparr>slept := slept h @ [d]\<rparr>)"
  by (simp add: py_sleep_def)

lemma py_sleep_negative: "d < 0 \<Longrightarrow> py_sleep d h = Inl (ValueError, h)"
  by (simp add: py_sleep_def)

lemma on_hw_Inr: "f (c_hw c) = Inr h \<Longrightarrow> on_hw c f = Inr (c\<lparr>c_hw := h\<rparr>)"
  by (simp add: on_hw_def)

lemma on_hw_Inl: "f (c_hw c) = Inl (e, h) \<Longrightarrow> on_hw c f = Inl (e, c\<lparr>c_hw := h\<rparr>)"
  by (simp add: on_hw_def)

section \<open>Properties of the control loop\<close>

lemma all_stopped_slept: "all_stopped eng (h\<lparr>slept := x\<rparr>) = all_stopped eng h"
  by (simp add: all_stopped_def wheel_off_def split: option.splits prod.splits)

lemma follow_prepare_fields:
  "c_engines (fst (follow_prepare c err now)) = c_engines c"
  "c_hw (fst (follow_prepare c err now)) = c_hw c"
  "c_search_start (fst (follow_prepare c err now)) = None"
  "c_ra_enabled (fst (follow_prepare c err now)) = c_ra_enabled c"
  by (simp_all add: follow_prepare_def Let_def)

lemma follow_publish_fields:
  "c_engines (follow_publish c err steer v) = c_engines c"
  "c_hw (follow_publish c err steer v) = c_hw c"
  "c_search_start (follow_publish c err steer v) = c_search_start c"
  "c_ra_enabled (follow_publish c err steer v) = c_ra_enabled c"
  "mode (c_state (follow_publish c err steer v)) = Following"
  "st_error (c_state (follow_publish c err steer v)) = err"
  by (simp_all add: follow_publish_def Let_def)

lemma handle_follow_ok:
  assumes "wheels_mapped (c_engines c)"
  shows "\<exists>c'. handle_follow c err now = Inr c' \<and> c_search_start c' = None \<and>
     mode (c_state c') = Following \<and> st_error (c_state c') = err \<and>
     c_engines c' = c_engines c \<and> slept (c_hw c') = slept (c_hw c)"
proof -
  obtain c1 steer where fp: "follow_prepare c err now = (c1, steer)"
    by (cases "follow_prepare c err now")
  from follow_prepare_fields [of c err now] fp
  have c1: "c_engines c1 = c_engines c" "c_hw c1 = c_hw c" "c_search_start c1 = None"
    by simp_all
  let ?v = "adaptive_speed (c_engines c1) \<bar>steer\<bar>"
  from assms c1 have "wheels_mapped (c_engines c1)" by simp
  from curve_ok [OF this, of "Some ?v" steer "c_hw c1"] obtain h' where
    h': "curve (c_engines c1) (Some ?v) steer (c_hw c1) = Inr h'" "slept h' = slept (c_hw c1)"
    by blast
  have r: "handle_follow c err now = Inr (follow_publish (c1\<lparr>c_hw := h'\<rparr>) err steer ?v)"
    by (simp add: handle_follow_def fp on_hw_def h'(1) and_then_Inr)
  show ?thesis unfolding r using c1 h'(2) by (simp add: follow_publish_fields)
qed

lemma handle_follow_unmapped:
  assumes "wheel (c_engines c) FRONT_LEFT = None"
  shows "\<exists>c'. handle_follow c err now = Inl (KeyError, c') \<and> c_engines c' = c_engines c"
proof -
  obtain c1 steer where fp: "follow_prepare c err now = (c1, steer)"
    by (cases "follow_prepare c err now")
  from follow_prepare_fields [of c err now] fp
  have c1: "c_engines c1 = c_engines c" by simp
  let ?v = "adaptive_speed (c_engines c1) \<bar>steer\<bar>"
  from assms c1 have "wheel (c_engines c1) FRONT_LEFT = None" by simp
  then have "curve (c_engines c1) (Some ?v) steer (c_hw c1) = Inl (KeyError, c_hw c1)"
    by (rule curve_unmapped)
  then have "handle_follow c err now = Inl (KeyError, c1\<lparr>c_hw := c_hw c1\<rparr>)"
    by (simp add: handle_follow_def fp on_hw_Inl and_then_Inl)
  with c1 show ?thesis by simp
qed

lemma search_enter_fields:
  "c_engines (search_enter c t) = c_engines c"
  "c_hw (search_enter c t) = c_hw c"
  "c_search_time (search_enter c t) = c_search_time c"
  "c_ra_enabled (search_enter c t) = c_ra_enabled c"
  "c_search_dir (search_enter c t) = c_search_dir c"
  "c_search_start (search_enter c t) = Some (case c_search_start c of None \<Rightarrow> t | Some x \<Rightarrow> x)"
  by (auto simp: search_enter_def)

lemma search_stopped_ok:
  assumes "wheels_mapped (c_engines c)"
  shows "\<exists>c'. search_stopped c = Inr c' \<and> mode (c_state c') = Stopped \<and>
     speed (c_state c') = 0 \<and> steering (c_state c') = 0 \<and>
     all_stopped (c_engines c') (c_hw c') \<and> slept (c_hw c') = slept (c_hw c) @ [1 / 2] \<and>
     c_engines c' = c_engines c \<and> c_search_start c' = c_search_start c \<and>
     c_ra_enabled c' = c_ra_enabled c"
proof -
  from stop_ok [OF assms, of "c_hw c"] obtain h' where
    h': "stop (c_engines c) (c_hw c) = Inr h'" "slept h' = slept (c_hw c)"
    "all_stopped (c_engines c) h'"
    by blast
  have "search_stopped c =
      Inr (c\<lparr>c_hw := h'\<lparr>slept := slept h' @ [1 / 2]\<rparr>,
             c_state := (c_state c)\<lparr>mode := Stopped, speed := 0, steering := 0\<rparr>\<rparr>)"
    by (simp add: search_stopped_def on_hw_def h'(1) and_then_Inr on_hw_def py_sleep_ok)
  with h'(2,3) show ?thesis by (simp add: all_stopped_slept)
qed

lemma search_stopped_unmapped:
  "wheel (c_engines c) FRONT_LEFT = None \<Longrightarrow>
   \<exists>c'. search_stopped c = Inl (KeyError, c') \<and> c_engines c' = c_engines c"
  by (simp add: search_stopped_def on_hw_def stop_unmapped and_then_Inl)

lemma search_turn_unmapped:
  "wheel (c_engines c) FRONT_LEFT = None \<Longrightarrow>
   \<exists>c'. search_turn c err = Inl (KeyError, c') \<and> c_engines c' = c_engines c"
  by (simp add: search_turn_def Let_def on_hw_def set_speed_unmapped and_then_Inl)

lemma handle_search_timeout:
  assumes "wheels_mapped (c_engines c)"
    and "c_search_time c < t2 - (case c_search_start c of None \<Rightarrow> t1 | Some t \<Rightarrow> t)"
  shows "\<exists>c'. handle_search c err t1 t2 = Inr c' \<and> mode (c_state c') = Stopped \<and>
     speed (c_state c') = 0 \<and> steering (c_state c') = 0 \<and>
     all_stopped (c_engines c') (c_hw c') \<and> slept (c_hw c') = slept (c_hw c) @ [1 / 2] \<and>
     c_engines c' = c_engines c \<and> c_ra_enabled c' = c_ra_enabled c \<and>
     c_search_start c' = Some (case c_search_start c of None \<Rightarrow> t1 | Some t \<Rightarrow> t)"
proof -
  let ?c1 = "search_enter c t1"
  from assms(2) have "handle_search c err t1 t2 = search_stopped ?c1"
    by (simp add: handle_search_def Let_def search_enter_fields)
  moreover from assms(1) have "wheels_mapped (c_engines ?c1)"
    by (simp add: search_enter_fields)
  from search_stopped_ok [OF this] obtain c' where
    "search_stopped ?c1 = Inr c'" "mode (c_state c') = Stopped"
    "speed (c_state c') = 0" "steering (c_state c') = 0"
    "all_stopped (c_engines c') (c_hw c')" "slept (c_hw c') = slept (c_hw ?c1) @ [1 / 2]"
    "c_engines c' = c_engines ?c1" "c_search_start c' = c_search_start ?c1"
    "c_ra_enabled c' = c_ra_enabled ?c1"
    by blast
  ultimately show ?thesis by (simp add: search_enter_fields)
qed

lemma handle_search_unmapped:
  assumes "wheel (c_engines c) FRONT_LEFT = None"
  shows "\<exists>c'. handle_search c err t1 t2 = Inl (KeyError, c') \<and> c_engines c' = c_engines c"
proof -
  let ?c1 = "search_enter c t1"
  from assms have w: "wheel (c_engines ?c1) FRONT_LEFT = None" by (simp add: search_enter_fields)
  from search_stopped_unmapped [OF w] search_turn_unmapped [OF w, of err]
  show ?thesis by (simp add: handle_search_def Let_def search_enter_fields)
qed

lemma turn_ok:
  assumes "wheels_mapped eng" and "0 \<le> d"
  shows "\<exists>h'. turn_right eng spd (Some d) h = Inr h' \<and> slept h' = slept h @ [d]"
    and "\<exists>h'. turn_left eng spd (Some d) h = Inr h' \<and> slept h' = slept h @ [d]"
proof -
  let ?v = "clamp (case spd of None \<Rightarrow> turn_speed eng | Some x \<Rightarrow> x) 0 100"
  from set_motors_ok [OF assms(1), of ?v "- ?v" ?v "- ?v" h] obtain h1 where
    h1: "set_motors eng ?v (- ?v) ?v (- ?v) h = Inr h1" "slept h1 = slept h" by blast
  from stop_ok [OF assms(1), of "h1\<lparr>slept := slept h1 @ [d]\<rparr>"] obtain h2 where
    h2: "stop eng (h1\<lparr>slept := slept h1 @ [d]\<rparr>) = Inr h2" "slept h2 = slept h1 @ [d]"
    by auto
  have "turn_right eng spd (Some d) h = Inr h2"
    by (simp add: turn_right_def Let_def h1(1) and_then_Inr py_sleep_ok [OF assms(2)] h2(1))
  with h2(2) h1(2) show "\<exists>h'. turn_right eng spd (Some d) h = Inr h' \<and> slept h' = slept h @ [d]"
    by simp
  from set_motors_ok [OF assms(1), of "- ?v" ?v "- ?v" ?v h] obtain h3 where
    h3: "set_motors eng (- ?v) ?v (- ?v) ?v h = Inr h3" "slept h3 = slept h" by blast
  from stop_ok [OF assms(1), of "h3\<lparr>slept := slept h3 @ [d]\<rparr>"] obtain h4 where
    h4: "stop eng (h3\<lparr>slept := slept h3 @ [d]\<rparr>) = Inr h4" "slept h4 = slept h3 @ [d]"
    by auto
  have "turn_left eng spd (Some d) h = Inr h4"
    by (simp add: turn_left_def Let_def h3(1) and_then_Inr py_sleep_ok [OF assms(2)] h4(1))
  with h4(2) h3(2) show "\<exists>h'. turn_left eng spd (Some d) h = Inr h' \<and> slept h' = slept h @ [d]"
    by simp
qed

lemma turn_negative:
  assumes "wheels_mapped eng" and "d < 0"
  shows "\<exists>h'. turn_right eng spd (Some d) h = Inl (ValueError, h') \<and> slept h' = slept h"
    and "\<exists>h'. turn_left eng spd (Some d) h = Inl (ValueError, h') \<and> slept h' = slept h"
proof -
  let ?v = "clamp (case spd of None \<Rightarrow> turn_speed eng | Some x \<Rightarrow> x) 0 100"
  from set_motors_ok [OF assms(1), of ?v "- ?v" ?v "- ?v" h] obtain h1 where
    h1: "set_motors eng ?v (- ?v) ?v (- ?v) h = Inr h1" "slept h1 = slept h" by blast
  have "turn_right eng spd (Some d) h = Inl (ValueError, h1)"
    by (simp add: turn_right_def Let_def h1(1) and_then_Inr py_sleep_negative [OF assms(2)]
        and_then_Inl)
  with h1(2) show "\<exists>h'. turn_right eng spd (Some d) h = Inl (ValueError, h') \<and> slept h' = slept h"
    by simp
  from set_motors_ok [OF assms(1), of "- ?v" ?v "- ?v" ?v h] obtain h3 where
    h3: "set_motors eng (- ?v) ?v (- ?v) ?v h = Inr h3" "slept h3 = slept h" by blast
  have "turn_left eng spd (Some d) h = Inl (ValueError, h3)"
    by (simp add: turn_left_def Let_def h3(1) and_then_Inr py_sleep_negative [OF assms(2)]
        and_then_Inl)
  with h3(2) show "\<exists>h'. turn_left eng spd (Some d) h = Inl (ValueError, h') \<and> slept h' = slept h"
    by simp
qed

lemma handle_right_angle_ok:
  assumes "wheels_mapped (c_engines c)" and "0 \<le> right_angle_turn_time (c_engines c)"
  shows "\<exists>c'. handle_right_angle c = Inr c' \<and> mode (c_state c') = RightAngle \<and>
     c_search_start c' = c_search_start c \<and> c_engines c' = c_engines c"
proof -
  let ?eng = "c_engines c"
  from stop_ok [OF assms(1), of "c_hw c"] obtain h1 where
    h1: "stop ?eng (c_hw c) = Inr h1" by blast
  let ?h2 = "h1\<lparr>slept := slept h1 @ [1 / 10]\<rparr>"
  from turn_ok(1) [OF assms, of "Some (right_angle_turn_speed ?eng)" ?h2] obtain h3 where
    h3: "turn_right ?eng (Some (right_angle_turn_speed ?eng))
          (Some (right_angle_turn_time ?eng)) ?h2 = Inr h3" by blast
  from turn_ok(2) [OF assms, of "Some (right_angle_turn_speed ?eng)" ?h2] obtain h4 where
    h4: "turn_left ?eng (Some (right_angle_turn_speed ?eng))
          (Some (right_angle_turn_time ?eng)) ?h2 = Inr h4" by blast
  show ?thesis
    by (simp add: handle_right_angle_def on_hw_def h1 and_then_Inr py_sleep_ok
        right_angle_right_def right_angle_left_def h3 h4)
qed

lemma handle_right_angle_raises:
  assumes "wheels_mapped (c_engines c)" and "right_angle_turn_time (c_engines c) < 0"
  shows "\<exists>c'. handle_right_angle c = Inl (ValueError, c') \<and> c_engines c' = c_engines c"
proof -
  let ?eng = "c_engines c"
  from stop_ok [OF assms(1), of "c_hw c"] obtain h1 where
    h1: "stop ?eng (c_hw c) = Inr h1" by blast
  let ?h2 = "h1\<lparr>slept := slept h1 @ [1 / 10]\<rparr>"
  from turn_negative(1) [OF assms, of "Some (right_angle_turn_speed ?eng)" ?h2] obtain h3 where
    h3: "turn_right ?eng (Some (right_angle_turn_speed ?eng))
          (Some (right_angle_turn_time ?eng)) ?h2 = Inl (ValueError, h3)" by blast
  from turn_negative(2) [OF assms, of "Some (right_angle_turn_speed ?eng)" ?h2] obtain h4 where
    h4: "turn_left ?eng (Some (right_angle_turn_speed ?eng))
          (Some (right_angle_turn_time ?eng)) ?h2 = Inl (ValueError, h4)" by blast
  show ?thesis
    by (simp add: handle_right_angle_def on_hw_def h1 and_then_Inr and_then_Inl py_sleep_ok
        right_angle_right_def right_angle_left_def h3 h4)
qed

lemma handle_right_angle_unmapped:
  "wheel (c_engines c) FRONT_LEFT = None \<Longrightarrow>
   \<exists>c'. handle_right_angle c = Inl (KeyError, c') \<and> c_engines c' = c_engines c"
  by (simp add: handle_right_angle_def on_hw_def stop_unmapped and_then_Inl)

lemma iteration_unmapped:
  assumes "wheel (c_engines c) FRONT_LEFT = None"
  shows "\<exists>c'. iteration_body c i = Inl (KeyError, c') \<and> c_engines c' = c_engines c"
  unfolding iteration_body_def
  using handle_right_angle_unmapped [OF assms]
    handle_search_unmapped [OF assms, of "in_error i" "in_time1 i" "in_time2 i"]
    handle_follow_unmapped [OF assms, of "in_error i" "in_time1 i"]
  by simp

lemma loop_iteration_unmapped:
  assumes "wheel (c_engines c) FRONT_LEFT = None"
  shows "\<exists>c'. loop_iteration c i = Inl (KeyError, c')"
proof -
  from iteration_unmapped [OF assms, of i] obtain c1 where
    c1: "iteration_body c i = Inl (KeyError, c1)" "c_engines c1 = c_engines c" by blast
  with assms have "wheel (c_engines c1) FRONT_LEFT = None" by simp
  then show ?thesis
    by (simp add: loop_iteration_def c1(1) on_hw_def stop_unmapped and_then_Inl)
qed

lemma follow_iteration:
  assumes "wheels_mapped (c_engines c)" and "\<not> in_line_lost i"
    and "\<not> (in_right_angle i \<and> c_ra_enabled c)"
  shows "\<exists>c'. loop_iteration c i = Inr c' \<and>
     iteration_body c i = handle_follow c (in_error i) (in_time1 i) \<and>
     c_search_start c' = None \<and> mode (c_state c') = Following"
proof -
  from assms(2,3) have b: "iteration_body c i = handle_follow c (in_error i) (in_time1 i)"
    by (auto simp: iteration_body_def)
  from handle_follow_ok [OF assms(1), of "in_error i" "in_time1 i"] obtain c' where
    c': "handle_follow c (in_error i) (in_time1 i) = Inr c'" "c_search_start c' = None"
    "mode (c_state c') = Following" by blast
  from b c' show ?thesis by (simp add: loop_iteration_def)
qed

lemma timeout_iteration:
  assumes "wheels_mapped (c_engines c)" and "in_line_lost i"
    and "\<not> (in_right_angle i \<and> c_ra_enabled c)"
    and "c_search_time c <
      in_time2 i - (case c_search_start c of None \<Rightarrow> in_time1 i | Some t \<Rightarrow> t)"
  shows "\<exists>c'. loop_iteration c i = Inr c' \<and> mode (c_state c') = Stopped \<and>
     speed (c_state c') = 0 \<and> all_stopped (c_engines c') (c_hw c') \<and>
     slept (c_hw c') = slept (c_hw c) @ [1 / 2] \<and>
     c_engines c' = c_engines c \<and> c_ra_enabled c' = c_ra_enabled c"
proof -
  from assms(2,3) have b:
    "iteration_body c i = handle_search c (in_error i) (in_time1 i) (in_time2 i)"
    by (auto simp: iteration_body_def)
  from handle_search_timeout [OF assms(1,4), of "in_error i"] obtain c' where
    c': "handle_search c (in_error i) (in_time1 i) (in_time2 i) = Inr c'"
    "mode (c_state c') = Stopped" "speed (c_state c') = 0"
    "all_stopped (c_engines c') (c_hw c')" "slept (c_hw c') = slept (c_hw c) @ [1 / 2]"
    "c_engines c' = c_engines c" "c_ra_enabled c' = c_ra_enabled c"
    by blast
  from b c' show ?thesis by (simp add: loop_iteration_def)
qed



lemma example_wheels_mapped: "wheels_mapped (example_engines example_mapping rt)"
  by (simp add: wheels_mapped_def example_engines_def setup_channels_def example_mapping_def
      FRONT_LEFT_def FRONT_RIGHT_def REAR_LEFT_def REAR_RIGHT_def)

lemma doubled_unmapped: "wheel (example_engines doubled_mapping rt) FRONT_LEFT = None"
  by (simp add: example_engines_def setup_channels_def doubled_mapping_def
      FRONT_LEFT_def FRONT_RIGHT_def REAR_LEFT_def REAR_RIGHT_def)

lemma example_controller_fields:
  "c_engines (example_controller m rt) = example_engines m rt"
  "c_search_time (example_controller m rt) = 2"
  "c_ra_enabled (example_controller m rt) = True"
  "c_search_start (example_controller m rt) = None"
  "right_angle_turn_time (example_engines m rt) = rt"
  by (simp_all add: example_controller_def RobotController_def example_engines_def)






end
